theory Spec2Isabelle
  imports Main
begin

section \<open>The template engine of the demo generator\<close>

text \<open>
  The development embeds the template processor of the repository
  (\<^verbatim>\<open>replaceVariables\<close>, \<^verbatim>\<open>replaceSimpleVariables\<close> and \<^verbatim>\<open>getNestedValue\<close>)
  together with the parts of the JavaScript runtime those three functions rely on:
  property reads, string conversion, \<^verbatim>\<open>split\<close>, \<^verbatim>\<open>join\<close> and the global
  \<^verbatim>\<open>String.prototype.replace\<close> for the three regular expressions of the file.

  A character of a \<^typ>\<open>string\<close> stands for one code unit of a JavaScript string.  The
  regular expressions of the engine only ever test for ASCII characters.
\<close>

subsection \<open>Values of a Data Context\<close>

text \<open>
  A Data Context is a tree of strings, numbers, booleans, mappings and sequences.  A mapping
  keeps its own properties as an association list (the first entry of a key is the one a
  read finds).  A number is kept as the text that \<^verbatim>\<open>Number::toString\<close> gives for it
  (\<^verbatim>\<open>7\<close>, \<^verbatim>\<open>-0.5\<close>, \<^verbatim>\<open>1e+21\<close>, \<^verbatim>\<open>NaN\<close>): the engine observes a number through
  its string conversion only, so two numbers of the same text are the same number to it,
  and how the host arrives at the digits is not modelled.  The value \<^verbatim>\<open>undefined\<close> is
  not a value of a Data Context; a read that yields it returns \<^const>\<open>None\<close>.
\<close>

datatype val =
    Str string
  | Num string
  | Bool bool
  | Obj "(string \<times> val) list"
  | Arr "val list"

text \<open>
  What a property read can yield: a value of the Data Context, or a built-in function of
  the host, given by its name.  Only a read that the prototype chain answers yields a
  built-in function; a Data Context holds none.
\<close>

datatype looked = Data val | Builtin string

text \<open>
  What an evaluation can end with instead of a value: a thrown \<^verbatim>\<open>TypeError\<close>, or a
  property read that the prototype chain of the host would answer (\<open>HostDefined\<close>); for
  the latter the model gives no value.
\<close>

datatype error = TypeError | HostDefined

definition bind_result :: "error + 'a \<Rightarrow> ('a \<Rightarrow> error + 'b) \<Rightarrow> error + 'b" where
  "bind_result r f = (case r of Inl e \<Rightarrow> Inl e | Inr x \<Rightarrow> f x)"

fun sequence :: "(error + 'a) list \<Rightarrow> error + 'a list" where
  "sequence [] = Inr []"
| "sequence (r # rs) =
     bind_result r (\<lambda>x. bind_result (sequence rs) (\<lambda>xs. Inr (x # xs)))"

subsection \<open>Lengths and indices as text\<close>

text \<open>The decimal numeral of a natural number: the key of an index, the text of a length.\<close>

fun dec_nat :: "nat \<Rightarrow> string" where
  "dec_nat n =
     (if n < 10 then [''0123456789'' ! n]
      else dec_nat (n div 10) @ [''0123456789'' ! (n mod 10)])"

declare dec_nat.simps [simp del]

subsection \<open>String conversion\<close>

text \<open>
  \<^verbatim>\<open>Array.prototype.join\<close> on texts that are already converted.
\<close>

fun join :: "string \<Rightarrow> string list \<Rightarrow> string" where
  "join sep [] = []"
| "join sep [s] = s"
| "join sep (s # t # ts) = s @ sep @ join sep (t # ts)"

text \<open>
  The abstract operation \<^verbatim>\<open>ToString\<close>.  A string is itself, a number its text, a
  boolean \<^verbatim>\<open>true\<close> or \<^verbatim>\<open>false\<close>.  A sequence goes through \<^verbatim>\<open>Array.prototype.toString\<close>,
  that is \<^verbatim>\<open>join(",")\<close> over the converted elements.  A mapping goes through
  \<^verbatim>\<open>OrdinaryToPrimitive\<close>: the property \<^verbatim>\<open>toString\<close> is read and called when it is
  callable.  Without an own property of that name the read finds
  \<^verbatim>\<open>Object.prototype.toString\<close>, which answers \<^verbatim>\<open>[object Object]\<close>.  An own property
  \<^verbatim>\<open>toString\<close> holds a value of the Data Context, which is never callable; the
  conversion then turns to \<^verbatim>\<open>valueOf\<close>, which is either an own value (not callable) or
  \<^verbatim>\<open>Object.prototype.valueOf\<close> (it returns the mapping itself, not a primitive), and
  a \<^verbatim>\<open>TypeError\<close> is thrown.
\<close>

fun ToString :: "val \<Rightarrow> error + string" where
  "ToString (Str s) = Inr s"
| "ToString (Num n) = Inr n"
| "ToString (Bool b) = Inr (if b then ''true'' else ''false'')"
| "ToString (Obj kvs) =
     (if map_of kvs ''toString'' = None then Inr ''[object Object]'' else Inl TypeError)"
| "ToString (Arr xs) = map_sum id (join '','') (sequence (map ToString xs))"

text \<open>
  The conversion of what a read has yielded.  A built-in function converts to its source
  text, which Node prints as \<^verbatim>\<open>function Object() { [native code] }\<close>.
\<close>

fun ToString_looked :: "looked \<Rightarrow> error + string" where
  "ToString_looked (Data v) = ToString v"
| "ToString_looked (Builtin f) = Inr (''function '' @ f @ ''() { [native code] }'')"

subsection \<open>Property reads\<close>

text \<open>
  The own properties of a sequence or of a string are \<^verbatim>\<open>length\<close> and the indices below
  the length, each under the key that is the numeral of the index.
\<close>

definition own_index :: "'a list \<Rightarrow> string \<Rightarrow> 'a option" where
  "own_index xs k = map_option (\<lambda>i. xs ! i) (find (\<lambda>i. dec_nat i = k) [0..<length xs])"

text \<open>
  A read \<^verbatim>\<open>current[key]\<close> that finds no own property goes on to the prototype chain.
  There every value finds \<^verbatim>\<open>constructor\<close>, the built-in function of its kind.  Which
  other names the built-in prototypes define is a matter of the host; the predicate
  \<open>inh\<close> tells whether a name is one of them.  For such a name the model answers
  \<^const>\<open>HostDefined\<close>; for every other name the read yields \<^verbatim>\<open>undefined\<close>.
\<close>

fun constructor_of :: "val \<Rightarrow> string" where
  "constructor_of (Str s) = ''String''"
| "constructor_of (Num n) = ''Number''"
| "constructor_of (Bool b) = ''Boolean''"
| "constructor_of (Obj kvs) = ''Object''"
| "constructor_of (Arr xs) = ''Array''"

definition inherited :: "(string \<Rightarrow> bool) \<Rightarrow> val \<Rightarrow> string \<Rightarrow> error + looked option" where
  "inherited inh v k =
     (if k = ''constructor'' then Inr (Some (Builtin (constructor_of v)))
      else if inh k then Inl HostDefined else Inr None)"

fun getProp :: "(string \<Rightarrow> bool) \<Rightarrow> val \<Rightarrow> string \<Rightarrow> error + looked option" where
  "getProp inh (Obj kvs) k =
     (case map_of kvs k of
        Some v \<Rightarrow> Inr (Some (Data v))
      | None \<Rightarrow> inherited inh (Obj kvs) k)"
| "getProp inh (Arr xs) k =
     (if k = ''length'' then Inr (Some (Data (Num (dec_nat (length xs)))))
      else case own_index xs k of
             Some v \<Rightarrow> Inr (Some (Data v))
           | None \<Rightarrow> inherited inh (Arr xs) k)"
| "getProp inh (Str s) k =
     (if k = ''length'' then Inr (Some (Data (Num (dec_nat (length s)))))
      else case own_index s k of
             Some c \<Rightarrow> Inr (Some (Data (Str [c])))
           | None \<Rightarrow> inherited inh (Str s) k)"
| "getProp inh (Num n) k = inherited inh (Num n) k"
| "getProp inh (Bool b) k = inherited inh (Bool b) k"

subsection \<open>getNestedValue\<close>

text \<open>
  \<^verbatim>\<open>path.split('.')\<close>: the segments between the dots; a text of \<open>n\<close> dots has \<open>n + 1\<close>
  segments, some of them possibly empty.
\<close>

fun split_dot :: "string \<Rightarrow> string list" where
  "split_dot [] = [[]]"
| "split_dot (c # cs) =
     (if c = CHR ''.'' then [] # split_dot cs
      else (case split_dot cs of [] \<Rightarrow> [[c]] | w # ws \<Rightarrow> (c # w) # ws))"

text \<open>
  The reducer \<^verbatim>\<open>(current, key) => current !== undefined ? current[key] : undefined\<close>.
  The properties of a built-in function are the host's.
\<close>

definition reducer ::
    "(string \<Rightarrow> bool) \<Rightarrow> error + looked option \<Rightarrow> string \<Rightarrow> error + looked option" where
  "reducer inh current key =
     (case current of
        Inl e \<Rightarrow> Inl e
      | Inr None \<Rightarrow> Inr None
      | Inr (Some (Data v)) \<Rightarrow> getProp inh v key
      | Inr (Some (Builtin f)) \<Rightarrow> Inl HostDefined)"

definition getNestedValue :: "(string \<Rightarrow> bool) \<Rightarrow> val \<Rightarrow> string \<Rightarrow> error + looked option" where
  "getNestedValue inh obj path = foldl (reducer inh) (Inr (Some (Data obj))) (split_dot path)"

subsection \<open>The regular expressions\<close>

definition word_char :: "char \<Rightarrow> bool" where
  "word_char c \<longleftrightarrow>
     c \<in> set ''abcdefghijklmnopqrstuvwxyzABCDEFGHIJKLMNOPQRSTUVWXYZ0123456789_''"

definition path_char :: "char \<Rightarrow> bool" where
  "path_char c \<longleftrightarrow> word_char c \<or> c = CHR ''.''"

definition starts_with :: "string \<Rightarrow> string \<Rightarrow> bool" where
  "starts_with p s \<longleftrightarrow> take (length p) s = p"

text \<open>The index of the first occurrence of \<open>p\<close> in a text.\<close>

fun find_sub :: "string \<Rightarrow> string \<Rightarrow> nat option" where
  "find_sub p [] = (if p = [] then Some 0 else None)"
| "find_sub p (c # cs) =
     (if starts_with p (c # cs) then Some 0 else map_option Suc (find_sub p cs))"

text \<open>
  A matcher tells whether its regular expression matches at the head of a text, and then
  gives the length of the match and the captured groups.

  \<^item> \<^verbatim>\<open>/\{\{\.\}\}/\<close> matches the five characters of the self-reference.
  \<^item> \<^verbatim>\<open>/\{\{([\w.]+)\}\}/\<close>: the group is greedy and \<^verbatim>\<open>}\<close> is not in its class, so the
    group is the longest run of path characters after the braces, and that run must be
    non-empty and followed by the closing braces.
  \<^item> \<^verbatim>\<open>/\{\{#(\w+)\}\}([\s\S]*?)\{\{\/\1\}\}/\<close>: the first group is the longest run of word
    characters, for the same reason; the second group is lazy, so it ends at the first
    occurrence of the closing marker of that name.
\<close>

type_synonym matcher = "string \<Rightarrow> (nat \<times> string list) option"

definition selfPattern :: matcher where
  "selfPattern s = (if starts_with ''{{.}}'' s then Some (5, []) else None)"

definition simplePattern :: matcher where
  "simplePattern s =
     (if starts_with ''{{'' s then
        (let p = takeWhile path_char (drop 2 s) in
         if p \<noteq> [] \<and> starts_with ''}}'' (drop (2 + length p) s)
         then Some (length p + 4, [p]) else None)
      else None)"

definition arrayPattern :: matcher where
  "arrayPattern s =
     (if starts_with ''{{#'' s then
        (let name = takeWhile word_char (drop 3 s);
             rest = drop (3 + length name) s in
         if name \<noteq> [] \<and> starts_with ''}}'' rest then
           (case find_sub (''{{/'' @ name @ ''}}'') (drop 2 rest) of
              None \<Rightarrow> None
            | Some i \<Rightarrow> Some (2 * length name + 10 + i, [name, take i (drop 2 rest)]))
         else None)
      else None)"

subsection \<open>String.prototype.replace with a global pattern\<close>

text \<open>
  The text is scanned from the left.  Where the pattern matches, the replacement of the
  match is emitted and the scan resumes behind the match; elsewhere the character is
  copied.  A replacer receives the matched text, the groups, and the text before and
  behind the match.  After an empty match the scan moves on by one character, which is
  copied; none of the three patterns of the engine matches the empty text.
\<close>

type_synonym replacer = "string \<Rightarrow> string list \<Rightarrow> string \<Rightarrow> string \<Rightarrow> error + string"

fun replace :: "matcher \<Rightarrow> replacer \<Rightarrow> string \<Rightarrow> string \<Rightarrow> error + string" where
  "replace m f pre [] = Inr []"
| "replace m f pre (c # cs) =
     (case m (c # cs) of
        None \<Rightarrow> map_sum id ((#) c) (replace m f (pre @ [c]) cs)
      | Some (n, groups) \<Rightarrow>
          bind_result (f (take n (c # cs)) groups pre (drop n (c # cs)))
            (\<lambda>r. map_sum id ((@) r)
               (if n = 0 then map_sum id ((#) c) (replace m f (pre @ [c]) cs)
                else replace m f (pre @ take n (c # cs)) (drop (n - 1) cs))))"

text \<open>
  A replacement that is a text, not a function, is expanded by \<^verbatim>\<open>GetSubstitution\<close>.
  The self-reference pattern has no groups, so of the dollar forms only \<^verbatim>\<open>$$\<close>,
  \<^verbatim>\<open>$&\<close>, \<^verbatim>\<open>$`\<close> and \<^verbatim>\<open>$'\<close> are special; a dollar before anything else stands for
  itself.
\<close>

fun GetSubstitution :: "string \<Rightarrow> string \<Rightarrow> string \<Rightarrow> string \<Rightarrow> string" where
  "GetSubstitution matched pre post [] = []"
| "GetSubstitution matched pre post [c] = [c]"
| "GetSubstitution matched pre post (c # d # t) =
     (if c = CHR ''$'' \<and> d = CHR ''$'' then CHR ''$'' # GetSubstitution matched pre post t
      else if c = CHR ''$'' \<and> d = CHR ''&'' then matched @ GetSubstitution matched pre post t
      else if c = CHR ''$'' \<and> d = CHR 0x60 then pre @ GetSubstitution matched pre post t
      else if c = CHR ''$'' \<and> d = CHR 0x27 then post @ GetSubstitution matched pre post t
      else c # GetSubstitution matched pre post (d # t))"

subsection \<open>The engine\<close>

definition replaceSimpleVariables :: "(string \<Rightarrow> bool) \<Rightarrow> string \<Rightarrow> val \<Rightarrow> error + string" where
  "replaceSimpleVariables inh template data =
     replace simplePattern
       (\<lambda>matched groups pre post.
          bind_result (getNestedValue inh data (groups ! 0))
            (\<lambda>value. case value of None \<Rightarrow> Inr matched | Some v \<Rightarrow> ToString_looked v))
       [] template"

text \<open>\<^verbatim>\<open>typeof item === 'object'\<close> on a value of a Data Context.\<close>

fun is_object :: "val \<Rightarrow> bool" where
  "is_object (Obj kvs) = True"
| "is_object (Arr xs) = True"
| "is_object v = False"

text \<open>
  The function mapped over the elements of a section's sequence.  The element is the
  replacement value of the first \<^verbatim>\<open>replace\<close>, so it is converted to text before the scan
  starts, whether or not the body holds a self-reference.
\<close>

definition item_callback :: "(string \<Rightarrow> bool) \<Rightarrow> string \<Rightarrow> val \<Rightarrow> error + string" where
  "item_callback inh innerTemplate item =
     bind_result (ToString item) (\<lambda>text.
     bind_result (replace selfPattern
                    (\<lambda>matched groups pre post. Inr (GetSubstitution matched pre post text))
                    [] innerTemplate) (\<lambda>itemResult.
     if is_object item then replaceSimpleVariables inh itemResult item else Inr itemResult))"

text \<open>
  \<^verbatim>\<open>Array.isArray\<close> on the result of a lookup, and the elements of a result that is a
  sequence.
\<close>

fun isArray :: "looked option \<Rightarrow> bool" where
  "isArray (Some (Data (Arr xs))) = True"
| "isArray v = False"

fun elements :: "looked option \<Rightarrow> val list" where
  "elements (Some (Data (Arr xs))) = xs"
| "elements v = []"

text \<open>
  The replacer of a section: the empty text unless the name resolves to a sequence, and
  otherwise the results for the elements, joined without a separator.
\<close>

definition array_callback :: "(string \<Rightarrow> bool) \<Rightarrow> val \<Rightarrow> replacer" where
  "array_callback inh data matched groups pre post =
     bind_result (getNestedValue inh data (groups ! 0)) (\<lambda>array.
       if \<not> isArray array then Inr []
       else map_sum id concat
              (sequence (map (item_callback inh (groups ! 1)) (elements array))))"

definition replaceVariables :: "(string \<Rightarrow> bool) \<Rightarrow> string \<Rightarrow> val \<Rightarrow> error + string" where
  "replaceVariables inh template data =
     bind_result (replace arrayPattern (array_callback inh data) [] template)
       (\<lambda>result. replaceSimpleVariables inh result data)"

text \<open>
  A host predicate for the examples, on the safe side for every kind of value: every name
  counts as one that the prototype chain may answer, except six names that no built-in
  prototype defines.
\<close>

definition host :: "string \<Rightarrow> bool" where
  "host k \<longleftrightarrow> k \<notin> set [''a'', ''b'', ''c'', ''city'', ''missing'', ''name'']"

subsection \<open>Templates without markers\<close>

text \<open>
  A pattern never matches in a text when it matches at none of its positions.  A template
  has no markers when neither the section pattern nor the placeholder pattern (which
  also covers the self-reference) matches anywhere in it.
\<close>

fun never_matches :: "matcher \<Rightarrow> string \<Rightarrow> bool" where
  "never_matches m [] = True"
| "never_matches m (c # cs) = (m (c # cs) = None \<and> never_matches m cs)"

definition no_markers :: "string \<Rightarrow> bool" where
  "no_markers t \<longleftrightarrow> never_matches arrayPattern t \<and> never_matches simplePattern t"

subsection \<open>The engine with its regular expression objects\<close>

text \<open>
  The three patterns carry the flag \<^verbatim>\<open>g\<close>, so each regular expression object has a
  \<^verbatim>\<open>lastIndex\<close> that \<^verbatim>\<open>exec\<close> reads and writes.  This second embedding keeps these
  objects: a heap holds every object created so far, evaluating a regular expression
  literal puts a new object on it, and a computation takes the heap it starts in and
  returns the heap it leaves with its result.
\<close>

record regexp =
  lastIndex :: nat

type_synonym heap = "regexp list"

type_synonym 'a run = "heap \<Rightarrow> (error + 'a) \<times> heap"

text \<open>The evaluation of a regular expression literal; the result is the address.\<close>

definition new_RegExp :: "nat run" where
  "new_RegExp h = (Inr (length h), h @ [\<lparr>lastIndex = 0\<rparr>])"

text \<open>One computation after another; a throw ends the sequence.\<close>

definition then_run :: "'a run \<Rightarrow> ('a \<Rightarrow> 'b run) \<Rightarrow> 'b run" where
  "then_run c f h = (case c h of (Inl e, h') \<Rightarrow> (Inl e, h') | (Inr x, h') \<Rightarrow> f x h')"

definition pure_run :: "error + 'a \<Rightarrow> 'a run" where
  "pure_run r h = (r, h)"

text \<open>
  \<^verbatim>\<open>RegExpBuiltinExec\<close> for a global pattern: the search starts at \<^verbatim>\<open>lastIndex\<close> and
  moves on by one position until the pattern matches.  On a match at \<open>i\<close> of length
  \<open>n\<close> the object's \<^verbatim>\<open>lastIndex\<close> becomes \<open>i + n\<close>; when the search runs past the end of
  the text it becomes \<open>0\<close> and the result is \<^verbatim>\<open>null\<close>.
\<close>

function search :: "matcher \<Rightarrow> string \<Rightarrow> nat \<Rightarrow> (nat \<times> nat \<times> string list) option" where
  "search m S i =
     (if length S < i then None
      else case m (drop i S) of
             Some (n, g) \<Rightarrow> Some (i, n, g)
           | None \<Rightarrow> search m S (Suc i))"
  by pat_completeness auto
termination
  by (relation "measure (\<lambda>(m, S, i). Suc (length S) - i)") auto

declare search.simps [simp del]

definition RegExpBuiltinExec ::
    "matcher \<Rightarrow> string \<Rightarrow> regexp \<Rightarrow> (nat \<times> nat \<times> string list) option \<times> regexp" where
  "RegExpBuiltinExec m S rx =
     (case search m S (lastIndex rx) of
        None \<Rightarrow> (None, rx\<lparr>lastIndex := 0\<rparr>)
      | Some (i, n, g) \<Rightarrow> (Some (i, n, g), rx\<lparr>lastIndex := i + n\<rparr>))"

text \<open>
  The loop of \<^verbatim>\<open>RegExp.prototype[Symbol.replace]\<close> that collects the matches: \<^verbatim>\<open>exec\<close>
  is called until it answers \<^verbatim>\<open>null\<close>, and after an empty match \<^verbatim>\<open>lastIndex\<close> is moved
  on by one.
\<close>

function collect ::
    "matcher \<Rightarrow> string \<Rightarrow> regexp \<Rightarrow> (nat \<times> nat \<times> string list) list \<times> regexp" where
  "collect m S rx =
     (case RegExpBuiltinExec m S rx of
        (None, rx') \<Rightarrow> ([], rx')
      | (Some (i, n, g), rx') \<Rightarrow>
          (case collect m S (if n = 0 then rx'\<lparr>lastIndex := Suc (lastIndex rx')\<rparr> else rx') of
             (results, rx'') \<Rightarrow> ((i, n, g) # results, rx'')))"
  by pat_completeness auto
termination
proof -
  have found: "li \<le> i \<and> i \<le> length S"
    if "search m S li = Some (i, n, g)" for m S li i n g
    using that
  proof (induction m S li rule: search.induct)
    case (1 m S li)
    show ?case
    proof (cases "m (drop li S)")
      case None
      with "1.prems" have "\<not> length S < li" "search m S (Suc li) = Some (i, n, g)"
        by (auto simp: search.simps [of m S li] split: if_splits)
      with "1.IH" None show ?thesis by fastforce
    next
      case (Some a)
      with "1.prems" show ?thesis
        by (auto simp: search.simps [of m S li] split: if_splits)
    qed
  qed
  have moved: "lastIndex rx \<le> i \<and> i \<le> length S \<and> lastIndex rx' = i + n"
    if "(Some (i, n, g), rx') = RegExpBuiltinExec m S rx" for m S rx i n g rx'
    using that by (auto simp: RegExpBuiltinExec_def split: option.splits dest: found)
  show ?thesis
    by (relation "measure (\<lambda>(m, S, rx). Suc (length S) - lastIndex rx)")
       (auto dest!: moved)
qed

declare collect.simps [simp del]

text \<open>
  The second half of \<^verbatim>\<open>RegExp.prototype[Symbol.replace]\<close>: the replacer is called for
  each match in turn, and the result is put together from the text between the matches
  and the replacements.  A replacer is a computation: it may create objects of its own.
\<close>

type_synonym run_replacer = "string \<Rightarrow> string list \<Rightarrow> string \<Rightarrow> string \<Rightarrow> string run"

fun accumulate ::
    "run_replacer \<Rightarrow> string \<Rightarrow> nat \<Rightarrow> (nat \<times> nat \<times> string list) list \<Rightarrow> string run" where
  "accumulate f S nsp [] h = (Inr (drop nsp S), h)"
| "accumulate f S nsp ((i, n, g) # results) h =
     (case f (take n (drop i S)) g (take i S) (drop (i + n) S) h of
        (Inl e, h') \<Rightarrow> (Inl e, h')
      | (Inr r, h') \<Rightarrow>
          if nsp \<le> i then
            (case accumulate f S (i + n) results h' of
               (res, h'') \<Rightarrow> (map_sum id ((@) (take (i - nsp) (drop nsp S) @ r)) res, h''))
          else accumulate f S nsp results h')"

text \<open>
  \<^verbatim>\<open>String.prototype.replace\<close> with the regular expression object at address \<open>a\<close>: its
  \<^verbatim>\<open>lastIndex\<close> is set to \<open>0\<close>, the matches are collected, the object is left as the last
  \<^verbatim>\<open>exec\<close> left it, and the replacers run.
\<close>

definition Symbol_replace :: "matcher \<Rightarrow> run_replacer \<Rightarrow> string \<Rightarrow> nat \<Rightarrow> string run" where
  "Symbol_replace m f S a h =
     (case collect m S ((h ! a)\<lparr>lastIndex := 0\<rparr>) of
        (results, rx) \<Rightarrow> accumulate f S 0 results (h[a := rx]))"

text \<open>
  The engine, with every regular expression literal creating its object where the source
  evaluates it: \<^verbatim>\<open>simplePattern\<close> in each call of \<^verbatim>\<open>replaceSimpleVariables\<close>, the
  self-reference pattern for each element of a section, \<^verbatim>\<open>arrayPattern\<close> in each call of
  \<^verbatim>\<open>replaceVariables\<close>.
\<close>

definition replaceSimpleVariables_run ::
    "(string \<Rightarrow> bool) \<Rightarrow> string \<Rightarrow> val \<Rightarrow> string run" where
  "replaceSimpleVariables_run inh template data =
     then_run new_RegExp (\<lambda>simplePattern_object.
       Symbol_replace simplePattern
         (\<lambda>matched groups pre post.
            pure_run
              (bind_result (getNestedValue inh data (groups ! 0))
                 (\<lambda>value. case value of None \<Rightarrow> Inr matched | Some v \<Rightarrow> ToString_looked v)))
         template simplePattern_object)"

text \<open>\<^verbatim>\<open>Array.prototype.map\<close> with a callback that is a computation.\<close>

fun map_run :: "('a \<Rightarrow> 'b run) \<Rightarrow> 'a list \<Rightarrow> 'b list run" where
  "map_run f [] h = (Inr [], h)"
| "map_run f (x # xs) h =
     (case f x h of
        (Inl e, h') \<Rightarrow> (Inl e, h')
      | (Inr y, h') \<Rightarrow>
          (case map_run f xs h' of
             (Inl e, h'') \<Rightarrow> (Inl e, h'')
           | (Inr ys, h'') \<Rightarrow> (Inr (y # ys), h'')))"

definition item_callback_run :: "(string \<Rightarrow> bool) \<Rightarrow> string \<Rightarrow> val \<Rightarrow> string run" where
  "item_callback_run inh innerTemplate item =
     then_run new_RegExp (\<lambda>selfPattern_object.
     then_run (pure_run (ToString item)) (\<lambda>text.
     then_run (Symbol_replace selfPattern
                 (\<lambda>matched groups pre post.
                    pure_run (Inr (GetSubstitution matched pre post text)))
                 innerTemplate selfPattern_object) (\<lambda>itemResult.
     if is_object item then replaceSimpleVariables_run inh itemResult item
     else pure_run (Inr itemResult))))"

definition array_callback_run :: "(string \<Rightarrow> bool) \<Rightarrow> val \<Rightarrow> run_replacer" where
  "array_callback_run inh data matched groups pre post =
     then_run (pure_run (getNestedValue inh data (groups ! 0))) (\<lambda>array.
       if \<not> isArray array then pure_run (Inr [])
       else then_run (map_run (item_callback_run inh (groups ! 1)) (elements array))
              (\<lambda>parts. pure_run (Inr (concat parts))))"

definition replaceVariables_run :: "(string \<Rightarrow> bool) \<Rightarrow> string \<Rightarrow> val \<Rightarrow> string run" where
  "replaceVariables_run inh template data =
     then_run new_RegExp (\<lambda>arrayPattern_object.
     then_run (Symbol_replace arrayPattern (array_callback_run inh data) template
                 arrayPattern_object) (\<lambda>result.
     replaceSimpleVariables_run inh result data))"

section \<open>Properties\<close>

lemmas engine_defs =
  replaceVariables_def replaceSimpleVariables_def arrayPattern_def simplePattern_def
  selfPattern_def starts_with_def word_char_def path_char_def array_callback_def
  item_callback_def getNestedValue_def reducer_def bind_result_def inherited_def

subsection \<open>Auxiliary facts\<close>

lemma word_char_not_special:
  "word_char c \<Longrightarrow> c \<noteq> CHR ''{'' \<and> c \<noteq> CHR ''}'' \<and> c \<noteq> CHR ''.'' \<and> c \<noteq> CHR ''/'' \<and> c \<noteq> CHR ''#''"
  by (auto simp: word_char_def)

lemma path_char_not_brace: "path_char c \<Longrightarrow> c \<noteq> CHR ''{'' \<and> c \<noteq> CHR ''}''"
  by (auto simp: path_char_def word_char_def)

lemma not_path_char_brace [simp]: "\<not> path_char CHR ''}''" "\<not> word_char CHR ''}''" "\<not> word_char CHR ''.''"
  by (auto simp: path_char_def word_char_def)

lemma takeWhile_run: "list_all P xs \<Longrightarrow> \<not> P y \<Longrightarrow> takeWhile P (xs @ y # ys) = xs"
  by (induction xs) auto

lemma map_sum_append_Nil [simp]: "map_sum id ((@) []) x = x"
  by (cases x) auto

lemma take_wrapped:
  "take (length p + 4) (a # b # p @ c # d # rest) = a # b # p @ [c, d]"
  "drop (length p + 4) (a # b # p @ c # d # rest) = rest"
  by (simp_all add: eval_nat_numeral)

lemma simplePattern_marker:
  assumes "p \<noteq> []" "list_all path_char p"
  shows "simplePattern (''{{'' @ p @ ''}}'' @ rest) = Some (length p + 4, [p])"
proof -
  have tw: "takeWhile path_char (p @ CHR ''}'' # CHR ''}'' # rest) = p"
    using takeWhile_run [OF assms(2), of "CHR ''}''" "CHR ''}'' # rest"] by simp
  show ?thesis
    using assms(1) by (simp add: simplePattern_def starts_with_def tw Let_def)
qed

lemma replace_match:
  assumes "m s = Some (n, g)" "0 < n" "s \<noteq> []"
  shows "replace m f pre s =
           bind_result (f (take n s) g pre (drop n s))
             (\<lambda>r. map_sum id ((@) r) (replace m f (pre @ take n s) (drop n s)))"
proof (cases s)
  case Nil
  with assms(3) show ?thesis by simp
next
  case (Cons c cs)
  from assms(2) have "drop (n - 1) cs = drop n (c # cs)"
    by (cases n) auto
  with assms Cons show ?thesis by simp
qed

lemma replace_pre:
  assumes "\<And>x g p q post. f x g p post = f x g q post"
  shows "replace m f p s = replace m f q s"
proof (induction s arbitrary: p q rule: length_induct)
  case (1 s)
  show ?case
  proof (cases s)
    case Nil
    then show ?thesis by simp
  next
    case (Cons c cs)
    show ?thesis
    proof (cases "m (c # cs)")
      case None
      have "replace m f (p @ [c]) cs = replace m f (q @ [c]) cs"
        using 1 Cons by simp
      with None Cons show ?thesis by simp
    next
      case (Some a)
      obtain n g where a: "a = (n, g)" by (cases a)
      have "replace m f (p @ take n (c # cs)) (drop (n - 1) cs)
            = replace m f (q @ take n (c # cs)) (drop (n - 1) cs)"
        using 1 Cons by simp
      moreover have "replace m f (p @ [c]) cs = replace m f (q @ [c]) cs"
        using 1 Cons by simp
      ultimately show ?thesis
        using Some a Cons assms [of _ _ p _ q] by simp
    qed
  qed
qed

lemma replace_never: "never_matches m s \<Longrightarrow> replace m f pre s = Inr s"
  by (induction s arbitrary: pre) auto

lemma simple_callback_pre:
  "replace simplePattern
       (\<lambda>matched groups pre post.
          bind_result (getNestedValue inh data (groups ! 0))
            (\<lambda>value. case value of None \<Rightarrow> Inr matched | Some v \<Rightarrow> ToString_looked v)) p s
   = replaceSimpleVariables inh s data"
  unfolding replaceSimpleVariables_def by (rule replace_pre) simp

lemma replaceSimpleVariables_marker:
  assumes "p \<noteq> []" "list_all path_char p"
  shows "replaceSimpleVariables inh (''{{'' @ p @ ''}}'' @ rest) data =
           bind_result (getNestedValue inh data p)
             (\<lambda>value. bind_result (case value of None \<Rightarrow> Inr (''{{'' @ p @ ''}}'') | Some v \<Rightarrow> ToString_looked v)
                (\<lambda>r. map_sum id ((@) r) (replaceSimpleVariables inh rest data)))"
proof -
  let ?s = "''{{'' @ p @ ''}}'' @ rest"
  have tk: "take (length p + 4) ?s = ''{{'' @ p @ ''}}''" by (simp add: take_wrapped)
  have dr: "drop (length p + 4) ?s = rest" by (simp add: take_wrapped)
  let ?f = "\<lambda>matched groups (pre::string) (post::string).
          bind_result (getNestedValue inh data (groups ! 0))
            (\<lambda>value. case value of None \<Rightarrow> Inr matched | Some v \<Rightarrow> ToString_looked v)"
  have m: "simplePattern ?s = Some (length p + 4, [p])"
    by (rule simplePattern_marker [OF assms])
  have "replace simplePattern ?f [] ?s =
          bind_result (?f (take (length p + 4) ?s) [p] [] (drop (length p + 4) ?s))
            (\<lambda>r. map_sum id ((@) r)
               (replace simplePattern ?f ([] @ take (length p + 4) ?s) (drop (length p + 4) ?s)))"
    by (rule replace_match [where m = simplePattern and s = "?s", OF m]) simp_all
  also have "\<dots> = bind_result (?f (''{{'' @ p @ ''}}'') [p] [] rest)
            (\<lambda>r. map_sum id ((@) r) (replaceSimpleVariables inh rest data))"
    by (simp only: tk dr simple_callback_pre)
  finally show ?thesis
    by (simp add: replaceSimpleVariables_def bind_result_def split: sum.splits option.splits)
qed

lemma pattern_needs_brace:
  "c \<noteq> CHR ''{'' \<Longrightarrow> simplePattern (c # cs) = None"
  "c \<noteq> CHR ''{'' \<Longrightarrow> arrayPattern (c # cs) = None"
  "c \<noteq> CHR ''{'' \<Longrightarrow> selfPattern (c # cs) = None"
  by (simp_all add: simplePattern_def arrayPattern_def selfPattern_def starts_with_def)

lemma never_matches_no_brace:
  "CHR ''{'' \<notin> set s \<Longrightarrow> never_matches simplePattern s"
  "CHR ''{'' \<notin> set s \<Longrightarrow> never_matches arrayPattern s"
  "CHR ''{'' \<notin> set s \<Longrightarrow> never_matches selfPattern s"
  by (induction s) (auto simp: pattern_needs_brace)

lemma path_no_brace: "list_all path_char p \<Longrightarrow> CHR ''{'' \<notin> set p"
  by (induction p) (auto dest: path_char_not_brace)

lemma never_array_marker:
  assumes "p \<noteq> []" "list_all path_char p"
  shows "never_matches arrayPattern (''{{'' @ p @ ''}}'' @ rest) = never_matches arrayPattern rest"
proof -
  obtain a q where p: "p = a # q" using assms(1) by (cases p) auto
  have a: "a \<noteq> CHR ''#''" "a \<noteq> CHR ''{''"
    using assms(2) p by (auto simp: path_char_def word_char_def)
  have q: "never_matches arrayPattern (p @ ''}}'' @ rest) = never_matches arrayPattern rest"
    using assms(2)
    by (induction p) (auto simp: pattern_needs_brace dest: path_char_not_brace)
  have "arrayPattern (''{{'' @ p @ ''}}'' @ rest) = None"
    using a by (simp add: p arrayPattern_def starts_with_def)
  moreover have "arrayPattern (''{'' @ p @ ''}}'' @ rest) = None"
    using a by (simp add: p arrayPattern_def starts_with_def)
  ultimately show ?thesis using q by simp
qed

lemma split_dot_segment: "CHR ''.'' \<notin> set a \<Longrightarrow> split_dot a = [a]"
  by (induction a) auto

lemma split_dot_append: "CHR ''.'' \<notin> set a \<Longrightarrow> split_dot (a @ CHR ''.'' # r) = a # split_dot r"
  by (induction a) auto

lemma word_no_dot: "list_all word_char N \<Longrightarrow> CHR ''.'' \<notin> set N"
  by (induction N) (auto dest: word_char_not_special)

lemma getNestedValue_segment:
  "CHR ''.'' \<notin> set a \<Longrightarrow> getNestedValue inh d a = getProp inh d a"
  by (simp add: getNestedValue_def split_dot_segment reducer_def)

lemma drop_opener:
  "drop (3 + length N) (a # b # c # N @ ys) = ys"
  "drop (5 + length N) (a # b # c # N @ d # e # ys) = ys"
  by (simp_all add: eval_nat_numeral)

lemma arrayPattern_section:
  assumes "N \<noteq> []" "list_all word_char N"
    and "find_sub (''{{/'' @ N @ ''}}'') (body @ ''{{/'' @ N @ ''}}'' @ rest) = Some (length body)"
  shows "arrayPattern (''{{#'' @ N @ ''}}'' @ body @ ''{{/'' @ N @ ''}}'' @ rest)
           = Some (2 * length N + 10 + length body, [N, body])"
proof -
  have tw: "takeWhile word_char (N @ CHR ''}'' # CHR ''}'' # body @ CHR ''{'' # CHR ''{'' # CHR ''/'' # N @ CHR ''}'' # CHR ''}'' # rest) = N"
    using takeWhile_run [OF assms(2), of "CHR ''}''"] by simp
  show ?thesis
    using assms(1,3) by (simp add: arrayPattern_def starts_with_def tw Let_def drop_opener)
qed

lemma arrayPattern_dotted:
  assumes "list_all word_char N"
  shows "arrayPattern (''{{#'' @ N @ ''.'' @ s) = None"
proof -
  have tw: "takeWhile word_char (N @ CHR ''.'' # s) = N"
    using takeWhile_run [OF assms, of "CHR ''.''"] by simp
  show ?thesis
    by (simp add: arrayPattern_def starts_with_def tw Let_def drop_opener)
qed

lemma take_drop_whole:
  "length xs = n \<Longrightarrow> take n (xs @ ys) = xs"
  "length xs = n \<Longrightarrow> drop n (xs @ ys) = ys"
  by auto

lemma array_callback_pre:
  "replace arrayPattern (array_callback inh data) p s = replace arrayPattern (array_callback inh data) q s"
  by (rule replace_pre) (simp add: array_callback_def)

lemma replace_section:
  assumes "N \<noteq> []" "list_all word_char N"
    and "find_sub (''{{/'' @ N @ ''}}'') (body @ ''{{/'' @ N @ ''}}'' @ rest) = Some (length body)"
  shows "replace arrayPattern (array_callback inh data) pre
           ((''{{#'' @ N @ ''}}'' @ body @ ''{{/'' @ N @ ''}}'') @ rest)
         = bind_result (array_callback inh data (''{{#'' @ N @ ''}}'' @ body @ ''{{/'' @ N @ ''}}'') [N, body] pre rest)
             (\<lambda>r. map_sum id ((@) r) (replace arrayPattern (array_callback inh data) pre rest))"
proof -
  let ?sec = "''{{#'' @ N @ ''}}'' @ body @ ''{{/'' @ N @ ''}}''"
  let ?n = "2 * length N + 10 + length body"
  have len: "length ?sec = ?n" by simp
  have m: "arrayPattern (?sec @ rest) = Some (?n, [N, body])"
    using arrayPattern_section [OF assms] by simp
  have "replace arrayPattern (array_callback inh data) pre (?sec @ rest) =
          bind_result (array_callback inh data (take ?n (?sec @ rest)) [N, body] pre (drop ?n (?sec @ rest)))
            (\<lambda>r. map_sum id ((@) r)
               (replace arrayPattern (array_callback inh data) (pre @ take ?n (?sec @ rest)) (drop ?n (?sec @ rest))))"
    by (rule replace_match [where m = arrayPattern and s = "?sec @ rest", OF m]) simp_all
  also have "\<dots> = bind_result (array_callback inh data ?sec [N, body] pre rest)
            (\<lambda>r. map_sum id ((@) r)
               (replace arrayPattern (array_callback inh data) (pre @ ?sec) rest))"
    by (simp only: take_drop_whole [OF len])
  finally show ?thesis
    by (simp only: array_callback_pre [of inh data "pre @ ?sec" rest pre])
qed

lemma map_sum_cons_append:
  "map_sum id ((#) c) (map_sum id ((@) s) x) = map_sum id ((@) (c # s)) x"
  "map_sum id ((@) r) (map_sum id ((@) s) x) = map_sum id ((@) (r @ s)) x"
  by (cases x; simp)+

lemma replace_plain:
  assumes "\<And>c cs. c \<noteq> CHR ''{'' \<Longrightarrow> m (c # cs) = None"
  shows "CHR ''{'' \<notin> set s \<Longrightarrow>
           replace m f pre (s @ rest) = map_sum id ((@) s) (replace m f (pre @ s) rest)"
proof (induction s arbitrary: pre)
  case Nil
  then show ?case by (simp add: sum.map_ident)
next
  case (Cons c s)
  from Cons.prems have "c \<noteq> CHR ''{''" by auto
  then have "m (c # s @ rest) = None" by (rule assms)
  moreover have "replace m f (pre @ [c]) (s @ rest)
                   = map_sum id ((@) s) (replace m f ((pre @ [c]) @ s) rest)"
    using Cons.prems by (intro Cons.IH) auto
  ultimately show ?case by (cases "replace m f (pre @ c # s) rest") simp_all
qed

lemma word_no_brace: "list_all word_char k \<Longrightarrow> CHR ''{'' \<notin> set k"
  by (induction k) (auto dest: word_char_not_special)

lemma word_is_path: "list_all word_char k \<Longrightarrow> list_all path_char k"
  by (induction k) (auto simp: path_char_def)

text \<open>Indices: the numeral of a number determines the number.\<close>

lemma dec_nat_nonempty: "dec_nat n \<noteq> []"
  by (subst dec_nat.simps) simp

lemma digit_inj:
  "a < 10 \<Longrightarrow> b < 10 \<Longrightarrow> ''0123456789'' ! a = ''0123456789'' ! b \<Longrightarrow> a = b"
proof -
  assume "a < 10" "b < 10" "''0123456789'' ! a = ''0123456789'' ! b"
  moreover have "distinct ''0123456789''" by simp
  ultimately show "a = b" by (simp add: nth_eq_iff_index_eq)
qed

lemma dec_nat_last: "last (dec_nat n) = ''0123456789'' ! (n mod 10)"
  by (subst dec_nat.simps) simp

lemma dec_nat_inj: "dec_nat n = dec_nat m \<Longrightarrow> n = m"
proof (induction n arbitrary: m rule: dec_nat.induct)
  case (1 n)
  from "1.prems" have l: "''0123456789'' ! (n mod 10) = ''0123456789'' ! (m mod 10)"
    using dec_nat_last [of n] dec_nat_last [of m] by simp
  then have md: "n mod 10 = m mod 10" by (intro digit_inj) simp_all
  show ?case
  proof (cases "n < 10")
    case True
    have "m < 10"
    proof (rule ccontr)
      assume "\<not> m < 10"
      then have "dec_nat m = dec_nat (m div 10) @ [''0123456789'' ! (m mod 10)]"
        by (subst dec_nat.simps) simp
      moreover have "dec_nat n = [''0123456789'' ! n]"
        using True by (subst dec_nat.simps) simp
      ultimately show False using "1.prems" dec_nat_nonempty [of "m div 10"] by simp
    qed
    with True md show ?thesis by simp
  next
    case False
    have "\<not> m < 10"
    proof
      assume "m < 10"
      then have "dec_nat m = [''0123456789'' ! m]"
        by (subst dec_nat.simps) simp
      moreover have "dec_nat n = dec_nat (n div 10) @ [''0123456789'' ! (n mod 10)]"
        using False by (subst dec_nat.simps) simp
      ultimately show False using "1.prems" dec_nat_nonempty [of "n div 10"] by simp
    qed
    then have "dec_nat m = dec_nat (m div 10) @ [''0123456789'' ! (m mod 10)]"
      by (subst dec_nat.simps) simp
    moreover have "dec_nat n = dec_nat (n div 10) @ [''0123456789'' ! (n mod 10)]"
      using False by (subst dec_nat.simps) simp
    ultimately have "dec_nat (n div 10) = dec_nat (m div 10)"
      using "1.prems" by simp
    then have "n div 10 = m div 10" using "1.IH" False by simp
    with md show ?thesis by (metis div_mult_mod_eq)
  qed
qed

lemma dec_nat_not_length: "dec_nat n \<noteq> ''length''"
proof
  assume "dec_nat n = ''length''"
  then have "''0123456789'' ! (n mod 10) = CHR ''h''"
    using dec_nat_last [of n] by simp
  moreover have "n mod 10 < 10" by simp
  then have "''0123456789'' ! (n mod 10) \<in> set ''0123456789''"
    by (intro nth_mem) simp
  ultimately show False by auto
qed

lemma own_index_nth: "i < length xs \<Longrightarrow> own_index xs (dec_nat i) = Some (xs ! i)"
proof -
  assume i: "i < length xs"
  have "find (\<lambda>j. dec_nat j = dec_nat i) [0..<length xs] = Some i"
    using i by (auto simp: find_Some_iff dest: dec_nat_inj intro!: exI [of _ i])
  then show ?thesis by (simp add: own_index_def)
qed

text \<open>
  The scan splits in front of an opening pair of braces: no match of the placeholder
  pattern or of the self-reference pattern reaches across it.
\<close>

lemma GetSubstitution_plain:
  "CHR ''$'' \<notin> set x \<Longrightarrow> GetSubstitution m p q x = x"
  by (induction m p q x rule: GetSubstitution.induct) auto

lemma starts_with_simps [simp]:
  "starts_with [] s"
  "\<not> starts_with (a # p) []"
  "starts_with (a # p) (c # s) \<longleftrightarrow> c = a \<and> starts_with p s"
  by (auto simp: starts_with_def)

lemma starts_with_length: "starts_with p s \<Longrightarrow> length p \<le> length s"
  by (induction p arbitrary: s) (case_tac s; simp)+

lemma starts_with_closing_local:
  "starts_with ''}}'' (w @ CHR ''{'' # z) \<longleftrightarrow> starts_with ''}}'' w"
  by (cases w; cases "tl w") auto

lemma takeWhile_before_brace:
  "takeWhile path_char (xs @ CHR ''{'' # zs) = takeWhile path_char xs"
proof (cases "\<forall>x\<in>set xs. path_char x")
  case True
  moreover have "\<not> path_char CHR ''{''" by (simp add: path_char_def word_char_def)
  ultimately show ?thesis by (simp add: takeWhile_append2 takeWhile_eq_all_conv [THEN iffD2])
next
  case False
  then show ?thesis by (auto simp: takeWhile_append1)
qed

lemma drop_two: "drop (2 + n) (a # b # xs) = drop n xs" "drop 2 (a # b # xs) = xs"
  by (simp_all add: eval_nat_numeral)

lemma simplePattern_local:
  assumes "s \<noteq> []"
  shows "simplePattern (s @ ''{{'' @ y) = simplePattern s"
proof (cases s)
  case Nil
  with assms show ?thesis by simp
next
  case (Cons c s1)
  have nb: "\<not> path_char CHR ''{''" by (simp add: path_char_def word_char_def)
  show ?thesis
  proof (cases s1)
    case Nil
    show ?thesis
      by (simp add: Cons Nil simplePattern_def Let_def drop_two nb)
  next
    case s1: (Cons d r)
    let ?p = "takeWhile path_char r"
    have tw: "takeWhile path_char (r @ CHR ''{'' # CHR ''{'' # y) = ?p"
      by (rule takeWhile_before_brace)
    have le: "length ?p \<le> length r" by (rule length_takeWhile_le)
    have cl: "starts_with ''}}'' (drop (length ?p) r @ CHR ''{'' # CHR ''{'' # y)
            \<longleftrightarrow> starts_with ''}}'' (drop (length ?p) r)"
      by (rule starts_with_closing_local)
    have dr: "drop (length ?p) (r @ CHR ''{'' # CHR ''{'' # y)
                = drop (length ?p) r @ CHR ''{'' # CHR ''{'' # y"
      using le by simp
    show ?thesis
      by (simp only: Cons s1 simplePattern_def Let_def append_Cons append_Nil drop_two tw dr cl
            starts_with_simps)
  qed
qed

lemma selfPattern_local:
  assumes "s \<noteq> []"
  shows "selfPattern (s @ ''{{'' @ y) = selfPattern s"
proof -
  have "starts_with ''{{.}}'' (s @ CHR ''{'' # CHR ''{'' # y) \<longleftrightarrow> starts_with ''{{.}}'' s"
    using assms
    by (cases s; cases "tl s"; cases "tl (tl s)"; cases "tl (tl (tl s))";
        cases "tl (tl (tl (tl s)))") auto
  then show ?thesis by (simp add: selfPattern_def)
qed

lemma simplePattern_length:
  "simplePattern s = Some (n, g) \<Longrightarrow> 0 < n \<and> n \<le> length s"
proof -
  assume a: "simplePattern s = Some (n, g)"
  let ?p = "takeWhile path_char (drop 2 s)"
  from a have p: "starts_with ''}}'' (drop (2 + length ?p) s)"
    and n: "n = length ?p + 4"
    by (auto simp: simplePattern_def Let_def split: if_splits)
  from starts_with_length [OF p] have "2 + length ?p + 2 \<le> length s" by simp
  with n show ?thesis by simp
qed

lemma selfPattern_length:
  "selfPattern s = Some (n, g) \<Longrightarrow> 0 < n \<and> n \<le> length s"
proof -
  assume a: "selfPattern s = Some (n, g)"
  then have p: "starts_with ''{{.}}'' s" and n: "n = 5"
    by (auto simp: selfPattern_def split: if_splits)
  from starts_with_length [OF p] n show ?thesis by simp
qed

lemma bind_map_assoc:
  "bind_result (bind_result F (\<lambda>r. map_sum id ((@) r) X)) (\<lambda>a. map_sum id ((@) a) R)
     = bind_result F (\<lambda>r. map_sum id ((@) r) (bind_result X (\<lambda>a. map_sum id ((@) a) R)))"
  by (cases F; cases X; cases R) (simp_all add: bind_result_def)

lemma bind_map_cons:
  "bind_result (map_sum id ((#) c) X) (\<lambda>a. map_sum id ((@) a) R)
     = map_sum id ((#) c) (bind_result X (\<lambda>a. map_sum id ((@) a) R))"
  by (cases X; cases R) (simp_all add: bind_result_def)

lemma replace_split:
  assumes loc: "\<And>s. s \<noteq> [] \<Longrightarrow> m (s @ t) = m s"
    and len: "\<And>s n g. m s = Some (n, g) \<Longrightarrow> 0 < n \<and> n \<le> length s"
    and ind: "\<And>x g p q p' q'. f x g p q = f x g p' q'"
  shows "replace m f p (b @ t)
           = bind_result (replace m f p b) (\<lambda>a. map_sum id ((@) a) (replace m f p t))"
proof (induction b rule: length_induct)
  case (1 b)
  have pre: "replace m f q u = replace m f p u" for q u
    by (rule replace_pre) (rule ind)
  show ?case
  proof (cases b)
    case Nil
    then show ?thesis by (cases "replace m f p t") (simp_all add: bind_result_def)
  next
    case (Cons c cs)
    have mb: "m (b @ t) = m b" by (rule loc) (simp add: Cons)
    show ?thesis
    proof (cases "m b")
      case None
      have "length cs < length b" using Cons by simp
      then have ih: "replace m f p (cs @ t)
              = bind_result (replace m f p cs) (\<lambda>a. map_sum id ((@) a) (replace m f p t))"
        using 1 by blast
      have "replace m f p (b @ t) = map_sum id ((#) c) (replace m f p (cs @ t))"
        using None mb by (simp add: Cons pre [of "p @ [c]"])
      moreover have "replace m f p b = map_sum id ((#) c) (replace m f p cs)"
        using None by (simp add: Cons pre [of "p @ [c]"])
      ultimately show ?thesis by (simp only: ih bind_map_cons)
    next
      case (Some a)
      obtain n g where a: "a = (n, g)" by (cases a)
      from len [of b n g] Some a have n: "0 < n" "n \<le> length b" by auto
      have ne: "b \<noteq> []" "b @ t \<noteq> []" by (simp_all add: Cons)
      have tk: "take n (b @ t) = take n b" and dr: "drop n (b @ t) = drop n b @ t"
        using n by simp_all
      have "length (drop n b) < length b" using n Cons by simp
      then have ih: "replace m f p (drop n b @ t)
              = bind_result (replace m f p (drop n b))
                  (\<lambda>a. map_sum id ((@) a) (replace m f p t))"
        using 1 by blast
      have fe: "f (take n b) g p (drop n b @ t) = f (take n b) g p (drop n b)"
        by (rule ind)
      have mbt: "m (b @ t) = Some (n, g)" using Some a mb by simp
      have mb': "m b = Some (n, g)" using Some a by simp
      have "replace m f p (b @ t) =
              bind_result (f (take n (b @ t)) g p (drop n (b @ t)))
                (\<lambda>r. map_sum id ((@) r)
                   (replace m f (p @ take n (b @ t)) (drop n (b @ t))))"
        by (rule replace_match [where m = m and s = "b @ t", OF mbt n(1) ne(2)])
      then have l: "replace m f p (b @ t) =
              bind_result (f (take n b) g p (drop n b))
                (\<lambda>r. map_sum id ((@) r)
                   (bind_result (replace m f p (drop n b))
                      (\<lambda>a. map_sum id ((@) a) (replace m f p t))))"
        by (simp only: tk dr fe pre [of "p @ take n b"] ih)
      have "replace m f p b =
              bind_result (f (take n b) g p (drop n b))
                (\<lambda>r. map_sum id ((@) r) (replace m f (p @ take n b) (drop n b)))"
        by (rule replace_match [where m = m and s = b, OF mb' n(1) ne(1)])
      then have r: "replace m f p b =
              bind_result (f (take n b) g p (drop n b))
                (\<lambda>r. map_sum id ((@) r) (replace m f p (drop n b)))"
        by (simp only: pre [of "p @ take n b"])
      show ?thesis by (simp only: l r bind_map_assoc)
    qed
  qed
qed

lemma replace_returns:
  assumes "\<And>x g p q. \<exists>r. f x g p q = Inr r"
  shows "\<exists>y. replace m f p s = Inr y"
proof (induction s arbitrary: p rule: length_induct)
  case (1 s)
  show ?case
  proof (cases s)
    case Nil
    then show ?thesis by simp
  next
    case (Cons c cs)
    have "length cs < length s" using Cons by simp
    with 1 obtain y1 where y1: "replace m f (p @ [c]) cs = Inr y1" by blast
    show ?thesis
    proof (cases "m (c # cs)")
      case None
      with y1 Cons show ?thesis by simp
    next
      case (Some a)
      obtain n g where a: "a = (n, g)" by (cases a)
      obtain r where r: "f (take n (c # cs)) g p (drop n (c # cs)) = Inr r"
        using assms by blast
      have "length (drop (n - 1) cs) < length s" using Cons by simp
      with 1 obtain y2 where
        y2: "replace m f (p @ take n (c # cs)) (drop (n - 1) cs) = Inr y2" by blast
      from Some a r y1 y2 Cons show ?thesis by (simp add: bind_result_def)
    qed
  qed
qed

lemma self_marker:
  assumes "k \<noteq> []" "list_all word_char k"
  shows "replace selfPattern f p (''{{'' @ k @ ''}}'' @ b)
           = map_sum id ((@) (''{{'' @ k @ ''}}'')) (replace selfPattern f (p @ ''{{'' @ k @ ''}}'') b)"
proof -
  obtain a q where k: "k = a # q" using assms(1) by (cases k) auto
  have a: "a \<noteq> CHR ''.''" "a \<noteq> CHR ''{''"
    using assms(2) k by (auto simp: word_char_def)
  have plain: "CHR ''{'' \<notin> set (k @ ''}}'')"
    using word_no_brace [OF assms(2)] by simp
  have n0: "selfPattern (CHR ''{'' # CHR ''{'' # (k @ ''}}'') @ b) = None"
    using a by (simp add: k selfPattern_def)
  have n1: "selfPattern (CHR ''{'' # (k @ ''}}'') @ b) = None"
    using a by (simp add: k selfPattern_def)
  have "replace selfPattern f (p @ ''{{'') ((k @ ''}}'') @ b)
          = map_sum id ((@) (k @ ''}}'')) (replace selfPattern f ((p @ ''{{'') @ k @ ''}}'') b)"
    by (rule replace_plain [OF _ plain]) (simp add: pattern_needs_brace)
  then have "replace selfPattern f p (CHR ''{'' # CHR ''{'' # (k @ ''}}'') @ b)
          = map_sum id ((@) (CHR ''{'' # CHR ''{'' # k @ ''}}''))
              (replace selfPattern f (p @ CHR ''{'' # CHR ''{'' # k @ ''}}'') b)"
    using n0 n1
    by (cases "replace selfPattern f (p @ CHR ''{'' # CHR ''{'' # k @ ''}}'') b") simp_all
  then show ?thesis by simp
qed

lemma item_callback_mapping:
  assumes "map_of kvs ''toString'' = None"
  shows "item_callback inh body (Obj kvs)
           = bind_result (replace selfPattern (\<lambda>m g p q. Inr ''[object Object]'') [] body)
               (\<lambda>r. replaceSimpleVariables inh r (Obj kvs))"
proof -
  have "(\<lambda>matched groups pre post. Inr (GetSubstitution matched pre post ''[object Object]'')
           :: error + string)
          = (\<lambda>m g p q. Inr ''[object Object]'')"
    by (intro ext) (simp add: GetSubstitution_plain)
  then show ?thesis
    using assms by (simp add: item_callback_def bind_result_def)
qed

lemma replaceSimpleVariables_split:
  "replaceSimpleVariables inh (b @ ''{{'' @ y) d
     = bind_result (replaceSimpleVariables inh b d)
         (\<lambda>a. map_sum id ((@) a) (replaceSimpleVariables inh (''{{'' @ y) d))"
  unfolding replaceSimpleVariables_def
proof (rule replace_split)
  show "simplePattern (s @ ''{{'' @ y) = simplePattern s" if "s \<noteq> []" for s
    using that by (rule simplePattern_local)
  show "0 < n \<and> n \<le> length s" if "simplePattern s = Some (n, g)" for s n g
    using that by (rule simplePattern_length)
qed (rule refl)

lemma item_callback_at_marker:
  assumes k: "k \<noteq> []" "list_all word_char k" and ts: "map_of kvs ''toString'' = None"
  shows "item_callback inh (b1 @ ''{{'' @ k @ ''}}'' @ b2) (Obj kvs)
           = bind_result (item_callback inh b1 (Obj kvs)) (\<lambda>x.
             bind_result
               (bind_result (getNestedValue inh (Obj kvs) k)
                  (\<lambda>value. case value of None \<Rightarrow> Inr (''{{'' @ k @ ''}}'')
                                        | Some v \<Rightarrow> ToString_looked v)) (\<lambda>s.
             bind_result (item_callback inh b2 (Obj kvs)) (\<lambda>y. Inr (x @ s @ y))))"
proof -
  let ?c = "\<lambda>(m::string) (g::string list) (p::string) (q::string). Inr ''[object Object]'' :: error + string"
  let ?mk = "''{{'' @ k @ ''}}''"
  let ?M = "bind_result (getNestedValue inh (Obj kvs) k)
                  (\<lambda>value. case value of None \<Rightarrow> Inr (''{{'' @ k @ ''}}'')
                                        | Some v \<Rightarrow> ToString_looked v)"
  obtain x1 where x1: "replace selfPattern ?c [] b1 = Inr x1"
    using replace_returns [of ?c selfPattern "[]" b1] by auto
  obtain x2 where x2: "replace selfPattern ?c [] b2 = Inr x2"
    using replace_returns [of ?c selfPattern "[]" b2] by auto
  have pre: "replace selfPattern ?c q u = replace selfPattern ?c [] u" for q u
    by (rule replace_pre) simp
  have "replace selfPattern ?c [] (''{{'' @ k @ ''}}'' @ b2)
          = map_sum id ((@) ?mk) (replace selfPattern ?c ([] @ ''{{'' @ k @ ''}}'') b2)"
    by (rule self_marker [OF k])
  then have m: "replace selfPattern ?c [] (''{{'' @ k @ ''}}'' @ b2) = Inr (?mk @ x2)"
    by (simp only: pre [of "[] @ ''{{'' @ k @ ''}}''"] x2) simp
  have "replace selfPattern ?c [] (b1 @ ''{{'' @ k @ ''}}'' @ b2)
          = bind_result (replace selfPattern ?c [] b1)
              (\<lambda>a. map_sum id ((@) a) (replace selfPattern ?c [] (''{{'' @ k @ ''}}'' @ b2)))"
  proof (rule replace_split)
    show "selfPattern (s @ ''{{'' @ k @ ''}}'' @ b2) = selfPattern s" if "s \<noteq> []" for s
      using that by (rule selfPattern_local)
    show "0 < n \<and> n \<le> length s" if "selfPattern s = Some (n, g)" for s n g
      using that by (rule selfPattern_length)
  qed (rule refl)
  then have sr: "replace selfPattern ?c [] (b1 @ ''{{'' @ k @ ''}}'' @ b2)
                   = Inr (x1 @ ''{{'' @ k @ ''}}'' @ x2)"
    by (simp only: x1 m) (simp add: bind_result_def)
  have i1: "item_callback inh b1 (Obj kvs) = replaceSimpleVariables inh x1 (Obj kvs)"
    by (simp only: item_callback_mapping [OF ts] x1) (simp add: bind_result_def)
  have i2: "item_callback inh b2 (Obj kvs) = replaceSimpleVariables inh x2 (Obj kvs)"
    by (simp only: item_callback_mapping [OF ts] x2) (simp add: bind_result_def)
  have "item_callback inh (b1 @ ''{{'' @ k @ ''}}'' @ b2) (Obj kvs)
          = replaceSimpleVariables inh (x1 @ ''{{'' @ k @ ''}}'' @ x2) (Obj kvs)"
    by (simp only: item_callback_mapping [OF ts] sr) (simp add: bind_result_def)
  also have "\<dots> = bind_result (replaceSimpleVariables inh x1 (Obj kvs))
         (\<lambda>a. map_sum id ((@) a) (replaceSimpleVariables inh (''{{'' @ k @ ''}}'' @ x2) (Obj kvs)))"
    by (rule replaceSimpleVariables_split)
  also have "\<dots> = bind_result (replaceSimpleVariables inh x1 (Obj kvs))
         (\<lambda>a. map_sum id ((@) a)
            (bind_result ?M (\<lambda>r. map_sum id ((@) r) (replaceSimpleVariables inh x2 (Obj kvs)))))"
    by (simp only: replaceSimpleVariables_marker [OF k(1) word_is_path [OF k(2)]])
       (simp add: bind_result_def split: sum.splits)
  finally show ?thesis
    unfolding i1 i2
    by (cases "replaceSimpleVariables inh x1 (Obj kvs)"; cases ?M;
        cases "replaceSimpleVariables inh x2 (Obj kvs)")
       (simp_all add: bind_result_def)
qed

text \<open>The loop over \<^verbatim>\<open>exec\<close> finds the matches that the scan finds.\<close>

lemma search_past: "length S < li \<Longrightarrow> search m S li = None"
  by (simp add: search.simps [of m S li])

lemma search_skip:
  "li \<le> length S \<Longrightarrow> m (drop li S) = None \<Longrightarrow> search m S li = search m S (Suc li)"
  by (simp add: search.simps [of m S li])

lemma search_here:
  "li \<le> length S \<Longrightarrow> m (drop li S) = Some (n, g) \<Longrightarrow> search m S li = Some (li, n, g)"
  by (simp add: search.simps [of m S li])

lemma collect_past:
  "length S < li \<Longrightarrow> collect m S \<lparr>lastIndex = li\<rparr> = ([], \<lparr>lastIndex = 0\<rparr>)"
  by (simp add: collect.simps [of m S "\<lparr>lastIndex = li\<rparr>"] RegExpBuiltinExec_def search_past)

lemma collect_skip:
  assumes "li \<le> length S" "m (drop li S) = None"
  shows "collect m S \<lparr>lastIndex = li\<rparr> = collect m S \<lparr>lastIndex = Suc li\<rparr>"
proof -
  have "RegExpBuiltinExec m S \<lparr>lastIndex = li\<rparr> = RegExpBuiltinExec m S \<lparr>lastIndex = Suc li\<rparr>"
    using assms by (simp add: RegExpBuiltinExec_def search_skip [of li S m] split: option.splits)
  then show ?thesis
    by (simp add: collect.simps [of m S "\<lparr>lastIndex = li\<rparr>"]
          collect.simps [of m S "\<lparr>lastIndex = Suc li\<rparr>"])
qed

lemma collect_here:
  assumes "li \<le> length S" "m (drop li S) = Some (n, g)" "0 < n"
  shows "collect m S \<lparr>lastIndex = li\<rparr>
           = (case collect m S \<lparr>lastIndex = li + n\<rparr> of
                (results, rx) \<Rightarrow> ((li, n, g) # results, rx))"
  using assms
  by (simp add: collect.simps [of m S "\<lparr>lastIndex = li\<rparr>"] RegExpBuiltinExec_def
        search_here [of li S m n g])

lemma accumulate_is_replace:
  assumes len: "\<And>s n g. m s = Some (n, g) \<Longrightarrow> 0 < n \<and> n \<le> length s"
    and pure: "\<And>x g p q h. fst (F x g p q h) = f x g p q"
  shows "nsp \<le> i \<Longrightarrow> i \<le> length S \<Longrightarrow>
           fst (accumulate F S nsp (fst (collect m S \<lparr>lastIndex = i\<rparr>)) h)
             = map_sum id ((@) (take (i - nsp) (drop nsp S))) (replace m f (take i S) (drop i S))"
proof (induction "length S - i" arbitrary: i nsp h rule: less_induct)
  case less
  have none_empty: "m [] = None"
  proof (cases "m []")
    case (Some a)
    then obtain n g where "m [] = Some (n, g)" by (cases a) auto
    from len [of "[]" n g, OF this] have False by auto
    then show ?thesis ..
  qed simp
  show ?case
  proof (cases "i = length S")
    case True
    have "collect m S \<lparr>lastIndex = i\<rparr> = ([], \<lparr>lastIndex = 0\<rparr>)"
      using collect_skip [of i S m] collect_past [of S "Suc i" m] True none_empty by simp
    then show ?thesis using True less.prems by simp
  next
    case False
    with less.prems have lt: "i < length S" by simp
    then have dr: "drop i S = S ! i # drop (Suc i) S" by (simp add: Cons_nth_drop_Suc)
    show ?thesis
    proof (cases "m (drop i S)")
      case None
      have c: "collect m S \<lparr>lastIndex = i\<rparr> = collect m S \<lparr>lastIndex = Suc i\<rparr>"
        using lt None by (intro collect_skip) simp_all
      have ih: "fst (accumulate F S nsp (fst (collect m S \<lparr>lastIndex = Suc i\<rparr>)) h)
             = map_sum id ((@) (take (Suc i - nsp) (drop nsp S)))
                 (replace m f (take (Suc i) S) (drop (Suc i) S))"
        using lt less.prems by (intro less.hyps) simp_all
      have t1: "take (Suc i) S = take i S @ [S ! i]"
        using lt by (simp add: take_Suc_conv_app_nth)
      have t2: "take (Suc i - nsp) (drop nsp S) = take (i - nsp) (drop nsp S) @ [S ! i]"
        using lt less.prems by (simp add: Suc_diff_le take_Suc_conv_app_nth)
      have "replace m f (take i S) (drop i S)
              = map_sum id ((#) (S ! i)) (replace m f (take i S @ [S ! i]) (drop (Suc i) S))"
        using None by (simp add: dr)
      then show ?thesis
        unfolding c ih t1 t2
        by (cases "replace m f (take i S @ [S ! i]) (drop (Suc i) S)") simp_all
    next
      case (Some a)
      obtain n g where a: "m (drop i S) = Some (n, g)" using Some by (cases a) auto
      from len [OF a] have n: "0 < n" "i + n \<le> length S" using lt by auto
      obtain rs rx where crs: "collect m S \<lparr>lastIndex = i + n\<rparr> = (rs, rx)"
        by (cases "collect m S \<lparr>lastIndex = i + n\<rparr>")
      have c: "collect m S \<lparr>lastIndex = i\<rparr> = ((i, n, g) # rs, rx)"
        using collect_here [of i S m n g] lt a n(1) crs by simp
      have ih: "fst (accumulate F S (i + n) rs h')
             = replace m f (take (i + n) S) (drop (i + n) S)" for h'
      proof -
        have "fst (accumulate F S (i + n) (fst (collect m S \<lparr>lastIndex = i + n\<rparr>)) h')
             = map_sum id ((@) (take (i + n - (i + n)) (drop (i + n) S)))
                 (replace m f (take (i + n) S) (drop (i + n) S))"
          using n lt by (intro less.hyps) simp_all
        then show ?thesis
          by (cases "replace m f (take (i + n) S) (drop (i + n) S)") (simp_all add: crs)
      qed
      have ne: "drop i S \<noteq> []" using lt by simp
      have r: "replace m f (take i S) (drop i S)
              = bind_result (f (take n (drop i S)) g (take i S) (drop n (drop i S)))
                  (\<lambda>r. map_sum id ((@) r)
                     (replace m f (take i S @ take n (drop i S)) (drop n (drop i S))))"
        by (rule replace_match [where m = m and s = "drop i S", OF a n(1) ne])
      have t: "take i S @ take n (drop i S) = take (i + n) S" "drop n (drop i S) = drop (i + n) S"
        by (simp_all add: take_add add.commute)
      obtain res h' where F: "F (take n (drop i S)) g (take i S) (drop (i + n) S) h = (res, h')"
        by (cases "F (take n (drop i S)) g (take i S) (drop (i + n) S) h")
      have fres: "f (take n (drop i S)) g (take i S) (drop (i + n) S) = res"
        using pure [of "take n (drop i S)" g "take i S" "drop (i + n) S" h] F by simp
      show ?thesis
      proof (cases res)
        case (Inl e)
        then show ?thesis
          unfolding c r t using F fres by (simp add: bind_result_def)
      next
        case (Inr x)
        obtain res2 h2 where acc: "accumulate F S (i + n) rs h' = (res2, h2)"
          by (cases "accumulate F S (i + n) rs h'")
        have "res2 = replace m f (take (i + n) S) (drop (i + n) S)"
          using ih [of h'] acc by simp
        then show ?thesis
          unfolding c r t using F fres Inr acc less.prems
          by (simp add: bind_result_def map_sum_cons_append)
      qed
    qed
  qed
qed

lemma find_sub_bound: "find_sub p s = Some i \<Longrightarrow> i + length p \<le> length s"
proof (induction s arbitrary: i)
  case Nil
  then show ?case by (simp split: if_splits)
next
  case (Cons c cs)
  show ?case
  proof (cases "starts_with p (c # cs)")
    case True
    with Cons.prems starts_with_length [OF True] show ?thesis by simp
  next
    case False
    with Cons.prems obtain j where "find_sub p cs = Some j" "i = Suc j" by auto
    with Cons.IH show ?thesis by simp
  qed
qed

lemma arrayPattern_length:
  "arrayPattern s = Some (n, g) \<Longrightarrow> 0 < n \<and> n \<le> length s"
proof -
  assume a: "arrayPattern s = Some (n, g)"
  let ?name = "takeWhile word_char (drop 3 s)"
  let ?rest = "drop (3 + length ?name) s"
  from a obtain i where
    f: "find_sub (''{{/'' @ ?name @ ''}}'') (drop 2 ?rest) = Some i"
    and n: "n = 2 * length ?name + 10 + i"
    by (auto simp: arrayPattern_def Let_def split: if_splits option.splits)
  from find_sub_bound [OF f] have "i + (length ?name + 5) \<le> length s - (5 + length ?name)"
    by simp
  with n show ?thesis by simp
qed

lemma regexp_reset: "(rx :: regexp)\<lparr>lastIndex := 0\<rparr> = \<lparr>lastIndex = 0\<rparr>"
  by (cases rx) simp

lemma Symbol_replace_pure:
  assumes len: "\<And>s n g. m s = Some (n, g) \<Longrightarrow> 0 < n \<and> n \<le> length s"
    and pure: "\<And>x g p q h. fst (F x g p q h) = f x g p q"
  shows "fst (Symbol_replace m F S a h) = replace m f [] S"
proof -
  have "fst (accumulate F S 0 (fst (collect m S \<lparr>lastIndex = 0\<rparr>)) h')
             = map_sum id ((@) (take (0 - 0) (drop 0 S))) (replace m f (take 0 S) (drop 0 S))"
    for h'
    by (rule accumulate_is_replace [OF len pure]) simp_all
  then have "fst (accumulate F S 0 (fst (collect m S \<lparr>lastIndex = 0\<rparr>)) h') = replace m f [] S"
    for h'
    by (cases "replace m f [] S") simp_all
  then show ?thesis
    by (cases "collect m S \<lparr>lastIndex = 0\<rparr>")
       (auto simp: Symbol_replace_def regexp_reset split: prod.splits)
qed

lemma fst_pure_run [simp]: "fst (pure_run r h) = r"
  by (simp add: pure_run_def)

lemma fst_then_run:
  assumes "\<And>h. fst (c h) = r" and "\<And>x h. fst (k x h) = g x"
  shows "fst (then_run c k h) = bind_result r g"
proof (cases "c h")
  case (Pair res h')
  with assms(1) [of h] have "res = r" by simp
  with Pair assms(2) show ?thesis
    by (cases r) (simp_all add: then_run_def bind_result_def)
qed

lemma fst_then_new:
  assumes "\<And>a h. fst (k a h) = r"
  shows "fst (then_run new_RegExp k h) = r"
  using assms by (simp add: then_run_def new_RegExp_def)

lemma replaceSimpleVariables_run_pure:
  "fst (replaceSimpleVariables_run inh template data h) = replaceSimpleVariables inh template data"
  unfolding replaceSimpleVariables_run_def replaceSimpleVariables_def
  by (rule fst_then_new, rule Symbol_replace_pure) (simp_all add: simplePattern_length)

lemma item_callback_run_pure:
  "fst (item_callback_run inh innerTemplate item h) = item_callback inh innerTemplate item"
  unfolding item_callback_run_def item_callback_def
proof (rule fst_then_new, rule fst_then_run)
  fix t h
  show "fst (pure_run (ToString item) h) = ToString item" by simp
  fix a
  show "fst (then_run
               (Symbol_replace selfPattern
                  (\<lambda>matched groups pre post. pure_run (Inr (GetSubstitution matched pre post t)))
                  innerTemplate a)
               (\<lambda>itemResult. if is_object item then replaceSimpleVariables_run inh itemResult item
                               else pure_run (Inr itemResult)) h)
          = bind_result
              (replace selfPattern
                 (\<lambda>matched groups pre post. Inr (GetSubstitution matched pre post t)) []
                 innerTemplate)
              (\<lambda>itemResult. if is_object item then replaceSimpleVariables inh itemResult item
                              else Inr itemResult)"
  proof (rule fst_then_run)
    show "fst (Symbol_replace selfPattern
                 (\<lambda>matched groups pre post. pure_run (Inr (GetSubstitution matched pre post t)))
                 innerTemplate a h')
            = replace selfPattern
                (\<lambda>matched groups pre post. Inr (GetSubstitution matched pre post t)) []
                innerTemplate" for h'
      by (rule Symbol_replace_pure) (simp_all add: selfPattern_length)
    show "fst ((if is_object item then replaceSimpleVariables_run inh x item
                else pure_run (Inr x)) h')
            = (if is_object item then replaceSimpleVariables inh x item else Inr x)" for x h'
      by (simp add: replaceSimpleVariables_run_pure)
  qed
qed

lemma map_run_pure:
  assumes "\<And>x h. fst (F x h) = f x"
  shows "fst (map_run F xs h) = sequence (map f xs)"
proof (induction xs arbitrary: h)
  case Nil
  show ?case by simp
next
  case (Cons x xs)
  obtain r h' where r: "F x h = (r, h')" by (cases "F x h")
  with assms [of x h] have fx: "f x = r" by simp
  obtain rs h'' where rs: "map_run F xs h' = (rs, h'')" by (cases "map_run F xs h'")
  with Cons [of h'] have s: "sequence (map f xs) = rs" by simp
  show ?case
    using r rs by (cases r; cases rs) (simp_all add: fx s bind_result_def)
qed

lemma array_callback_run_pure:
  "fst (array_callback_run inh data matched groups pre post h)
     = array_callback inh data matched groups pre post"
  unfolding array_callback_run_def array_callback_def
proof (rule fst_then_run)
  show "fst (pure_run (getNestedValue inh data (groups ! 0)) h')
          = getNestedValue inh data (groups ! 0)" for h'
    by simp
  fix array h'
  have "fst (then_run (map_run (item_callback_run inh (groups ! 1)) (elements array))
               (\<lambda>parts. pure_run (Inr (concat parts))) h')
          = bind_result (sequence (map (item_callback inh (groups ! 1)) (elements array)))
              (\<lambda>parts. Inr (concat parts))"
    by (rule fst_then_run) (simp_all add: map_run_pure item_callback_run_pure)
  moreover have "bind_result r (\<lambda>parts. Inr (concat parts)) = map_sum id concat r"
    for r :: "error + string list"
    by (cases r) (simp_all add: bind_result_def)
  ultimately show "fst ((if \<not> isArray array then pure_run (Inr [])
             else then_run (map_run (item_callback_run inh (groups ! 1)) (elements array))
                    (\<lambda>parts. pure_run (Inr (concat parts)))) h')
          = (if \<not> isArray array then Inr []
             else map_sum id concat
                    (sequence (map (item_callback inh (groups ! 1)) (elements array))))"
    by simp
qed

lemma replaceVariables_run_pure:
  "fst (replaceVariables_run inh template data h) = replaceVariables inh template data"
  unfolding replaceVariables_run_def replaceVariables_def
  by (rule fst_then_new, rule fst_then_run, rule Symbol_replace_pure)
     (simp_all add: arrayPattern_length array_callback_run_pure replaceSimpleVariables_run_pure)

subsection \<open>A scenario of the specification\<close>

text \<open>
  The embedding renders the scenario of the specification as the specification expects:
  two placeholders, and a section over two badges.
\<close>

lemma resort_scenario:
  "replaceVariables inh ''{{name}} costs {{price}}. {{#badges}}[{{.}}] {{/badges}}''
     (Obj [(''name'', Str ''Resort''), (''price'', Str ''$299''),
           (''badges'', Arr [Str ''Popular'', Str ''New''])])
   = Inr ''Resort costs $299. [Popular] [New] ''"
  by (simp add: engine_defs)

subsection \<open>Sections over mappings\<close>




text \<open>
  The value of an element is scanned by the second pass like any other text.
\<close>

lemma substituted_value_is_scanned_again:
  "replaceVariables inh ''{{#items}}{{name}}{{/items}}''
     (Obj [(''name'', Str ''Outer''), (''items'', Arr [Obj [(''name'', Str ''{{name}}'')]])])
   = Inr ''Outer''"
  by (simp add: engine_defs)

subsection \<open>Rendering can throw\<close>

text \<open>
  Claim C2.  Rendering should return for every template and every Data Context.  A
  placeholder that resolves to a mapping with an own property named \<^verbatim>\<open>toString\<close> makes
  the string conversion of the replacement throw a \<^verbatim>\<open>TypeError\<close>.
\<close>

theorem render_throws_on_own_toString:
  "replaceVariables inh ''{{x}}'' (Obj [(''x'', Obj [(''toString'', Str ''a'')])])
     = Inl TypeError"
  by (simp add: engine_defs)

subsection \<open>Dotted paths\<close>

text \<open>
  Claim C3.  Resolving the dotted path \<^verbatim>\<open>a.b.c\<close> is three single-segment reads in
  sequence, and a single segment is one property read.  An undefined intermediate result
  stays undefined.  A number or a boolean has no own properties, so a read on it is
  undefined for every name the prototype chain does not answer.  A string and a sequence
  do have own properties: the length, and every index below the length, is read like the
  key of a mapping.
\<close>

theorem dotted_path_lookups:
  "(CHR ''.'' \<notin> set a \<and> CHR ''.'' \<notin> set b \<and> CHR ''.'' \<notin> set c \<longrightarrow>
      getNestedValue inh d (a @ ''.'' @ b @ ''.'' @ c)
        = reducer inh (reducer inh (getProp inh d a) b) c
      \<and> getNestedValue inh d a = getProp inh d a)
   \<and> reducer inh (Inr None) k = Inr None
   \<and> (k \<noteq> ''constructor'' \<and> \<not> inh k \<longrightarrow>
        reducer inh (Inr (Some (Data (Num n)))) k = Inr None
        \<and> reducer inh (Inr (Some (Data (Bool t)))) k = Inr None)
   \<and> reducer inh (Inr (Some (Data (Str x)))) ''length''
        = Inr (Some (Data (Num (dec_nat (length x)))))
   \<and> reducer inh (Inr (Some (Data (Arr xs)))) ''length''
        = Inr (Some (Data (Num (dec_nat (length xs)))))
   \<and> (i < length x \<longrightarrow>
        reducer inh (Inr (Some (Data (Str x)))) (dec_nat i) = Inr (Some (Data (Str [x ! i]))))
   \<and> (j < length xs \<longrightarrow>
        reducer inh (Inr (Some (Data (Arr xs)))) (dec_nat j) = Inr (Some (Data (xs ! j))))"
proof (intro conjI impI)
  assume "CHR ''.'' \<notin> set a \<and> CHR ''.'' \<notin> set b \<and> CHR ''.'' \<notin> set c"
  then have s: "CHR ''.'' \<notin> set a" "CHR ''.'' \<notin> set b" "CHR ''.'' \<notin> set c" by auto
  have "split_dot (a @ CHR ''.'' # b @ CHR ''.'' # c) = [a, b, c]"
    by (simp add: split_dot_append s split_dot_segment)
  then show "getNestedValue inh d (a @ ''.'' @ b @ ''.'' @ c)
        = reducer inh (reducer inh (getProp inh d a) b) c"
    by (simp add: getNestedValue_def reducer_def)
  show "getNestedValue inh d a = getProp inh d a"
    by (rule getNestedValue_segment [OF s(1)])
next
  assume "i < length x"
  then show "reducer inh (Inr (Some (Data (Str x)))) (dec_nat i) = Inr (Some (Data (Str [x ! i])))"
    by (simp add: reducer_def own_index_nth dec_nat_not_length)
next
  assume "j < length xs"
  then show "reducer inh (Inr (Some (Data (Arr xs)))) (dec_nat j) = Inr (Some (Data (xs ! j)))"
    by (simp add: reducer_def own_index_nth dec_nat_not_length)
qed (simp_all add: reducer_def inherited_def)

theorem dotted_path_lookups_witness:
  "getNestedValue host (Obj [(''a'', Obj [(''b'', Obj [(''c'', Num ''7'')])])]) ''a.b.c''
     = Inr (Some (Data (Num ''7'')))
   \<and> getNestedValue host (Obj [(''a'', Obj [(''b'', Num ''7'')])]) ''a.b.c'' = Inr None
   \<and> getNestedValue host (Obj [(''a'', Obj [])]) ''a.b.c'' = Inr None
   \<and> \<not> host ''c''
   \<and> reducer host (Inr (Some (Data (Str ''xyz'')))) ''2'' = Inr (Some (Data (Str ''z'')))
   \<and> reducer host (Inr (Some (Data (Arr [Num ''7'', Bool True])))) ''1''
        = Inr (Some (Data (Bool True)))"
proof -
  have s: "CHR ''.'' \<notin> set ''a'' \<and> CHR ''.'' \<notin> set ''b'' \<and> CHR ''.'' \<notin> set ''c''" by simp
  have n: "''c'' \<noteq> ''constructor'' \<and> \<not> host ''c''" "\<not> host ''b''"
    by (simp_all add: host_def)
  have x: "2 < length ''xyz''" "1 < length [Num ''7'', Bool True]" by simp_all
  have d: "dec_nat 2 = ''2''" "dec_nat (Suc 0) = ''1''" by code_simp+
  note t = dotted_path_lookups [of "''a''" "''b''" "''c''" host _ "''c''" "''7''" True "''xyz''"
             "[Num ''7'', Bool True]" 2 1]
  have g1: "getNestedValue host (Obj [(''a'', Obj [(''b'', Obj [(''c'', Num ''7'')])])]) ''a.b.c''
     = Inr (Some (Data (Num ''7'')))"
    using t [of "Obj [(''a'', Obj [(''b'', Obj [(''c'', Num ''7'')])])]"] s
    by (simp add: reducer_def)
  have g2: "getNestedValue host (Obj [(''a'', Obj [(''b'', Num ''7'')])]) ''a.b.c'' = Inr None"
    using t [of "Obj [(''a'', Obj [(''b'', Num ''7'')])]"] s n
    by (simp add: reducer_def)
  have g3: "getNestedValue host (Obj [(''a'', Obj [])]) ''a.b.c'' = Inr None"
    using t [of "Obj [(''a'', Obj [])]"] s n
    by (simp add: reducer_def inherited_def)
  have g4: "reducer host (Inr (Some (Data (Str ''xyz'')))) ''2'' = Inr (Some (Data (Str ''z'')))"
    using t [of "Obj []"] x by (simp add: d)
  have g5: "reducer host (Inr (Some (Data (Arr [Num ''7'', Bool True])))) ''1''
        = Inr (Some (Data (Bool True)))"
    using t [of "Obj []"] x by (simp add: d)
  from g1 g2 g3 g4 g5 n show ?thesis by simp
qed

text \<open>
  A string in the middle of a path is therefore not a dead end: the claim as it was made,
  that a path through a value that is not a mapping is undefined, fails on the length of a
  string.
\<close>

theorem string_intermediate_is_read:
  "getNestedValue host (Obj [(''a'', Str ''xy'')]) ''a.length'' = Inr (Some (Data (Num ''2'')))"
  by (simp add: engine_defs dec_nat.simps)

subsection \<open>Section names\<close>




subsection \<open>Self-reference over primitive values\<close>

text \<open>
  Claim C5.  A section over a sequence of primitive values whose body is the self-reference
  should render the concatenation of the element texts, whatever characters an element
  holds.  The element is handed to \<^verbatim>\<open>replace\<close> as a replacement text, where the dollar
  forms are expanded: for the one-element sequence holding the text \<^verbatim>\<open>$$\<close> the engine
  renders a single dollar sign.
\<close>

theorem self_reference_expands_dollar:
  "replaceVariables inh ''{{#badges}}{{.}}{{/badges}}'' (Obj [(''badges'', Arr [Str ''$$''])])
     = Inr ''$''"
  by (simp add: engine_defs)

subsection \<open>Sections over values that are not sequences\<close>



subsection \<open>Unresolved placeholders\<close>

text \<open>
  Claim C7.  A placeholder whose key is missing from the Data Context should keep its
  marker text in the output.  The read \<^verbatim>\<open>current[key]\<close> also finds what the prototype
  chain holds: over the empty mapping the placeholder \<^verbatim>\<open>{{constructor}}\<close> is replaced by
  the source text of the built-in function.
\<close>

theorem inherited_constructor_is_substituted:
  "replaceVariables inh ''{{constructor}}'' (Obj [])
     = Inr ''function Object() { [native code] }''"
  by (simp add: engine_defs)

text \<open>
  Where the read does yield \<^verbatim>\<open>undefined\<close>, the marker is kept: the simple-substitution
  pass copies it and goes on behind it, and a template that is such a marker renders as
  itself.  The two scenarios of the specification are instances.
\<close>

lemma unresolved_placeholder_kept:
  "(p \<noteq> [] \<and> list_all path_char p \<and> getNestedValue inh data p = Inr None \<longrightarrow>
      replaceSimpleVariables inh (''{{'' @ p @ ''}}'' @ rest) data
        = map_sum id ((@) (''{{'' @ p @ ''}}'')) (replaceSimpleVariables inh rest data)
      \<and> replaceVariables inh (''{{'' @ p @ ''}}'') data = Inr (''{{'' @ p @ ''}}''))
   \<and> (\<not> inh ''missing'' \<longrightarrow>
        replaceVariables inh ''Hello {{missing}}!'' (Obj []) = Inr ''Hello {{missing}}!'')
   \<and> (\<not> inh ''city'' \<longrightarrow>
        replaceVariables inh ''{{user.city}}'' (Obj [(''user'', Obj [(''name'', Str ''Jo'')])])
          = Inr ''{{user.city}}'')"
proof (intro conjI impI)
  assume h: "p \<noteq> [] \<and> list_all path_char p \<and> getNestedValue inh data p = Inr None"
  then have a: "p \<noteq> []" "list_all path_char p" "getNestedValue inh data p = Inr None"
    by auto
  show step: "replaceSimpleVariables inh (''{{'' @ p @ ''}}'' @ rest) data
        = map_sum id ((@) (''{{'' @ p @ ''}}'')) (replaceSimpleVariables inh rest data)" for rest
    unfolding replaceSimpleVariables_marker [OF a(1,2)] a(3) by (simp add: bind_result_def)
  have "never_matches arrayPattern (''{{'' @ p @ ''}}'' @ [])"
    using h by (subst never_array_marker) simp_all
  then have "replace arrayPattern (array_callback inh data) [] (''{{'' @ p @ ''}}'') = Inr (''{{'' @ p @ ''}}'')"
    by (simp add: replace_never)
  moreover have "replaceSimpleVariables inh (''{{'' @ p @ ''}}'' @ []) data = Inr (''{{'' @ p @ ''}}'')"
    by (subst step) (simp add: replaceSimpleVariables_def)
  ultimately show "replaceVariables inh (''{{'' @ p @ ''}}'') data = Inr (''{{'' @ p @ ''}}'')"
    by (simp add: replaceVariables_def bind_result_def)
next
  assume "\<not> inh ''missing''"
  then show "replaceVariables inh ''Hello {{missing}}!'' (Obj []) = Inr ''Hello {{missing}}!''"
    by (simp add: engine_defs)
next
  assume "\<not> inh ''city''"
  then show "replaceVariables inh ''{{user.city}}'' (Obj [(''user'', Obj [(''name'', Str ''Jo'')])])
          = Inr ''{{user.city}}''"
    by (simp add: engine_defs)
qed

subsection \<open>The identity law\<close>

text \<open>
  Claim C8.  A template that holds no placeholder marker and no section marker is rendered
  unchanged, whatever the Data Context.
\<close>

theorem render_identity:
  "no_markers template \<Longrightarrow> replaceVariables inh template data = Inr template"
  by (simp add: no_markers_def replaceVariables_def replaceSimpleVariables_def
        replace_never bind_result_def)

theorem render_identity_witness:
  "no_markers ''a { b }} {{ c {{#x}} {{/y}}''
   \<and> replaceVariables host ''a { b }} {{ c {{#x}} {{/y}}'' (Obj [(''c'', Str ''d'')])
       = Inr ''a { b }} {{ c {{#x}} {{/y}}''"
proof -
  have h: "no_markers ''a { b }} {{ c {{#x}} {{/y}}''"
    by (simp add: no_markers_def arrayPattern_def simplePattern_def starts_with_def
          word_char_def path_char_def)
  from render_identity [OF h] h show ?thesis by simp
qed

subsection \<open>Determinism\<close>

text \<open>
  Claim C9.  Any two invocations of the renderer on the same template and the same data
  produce the same output.  In the embedding with regular expression objects an
  invocation starts in the heap that earlier invocations have left.  Its output is the
  same from every heap, in particular from the heap that an invocation on the same
  arguments has left, and it is the output of the embedding without objects: every
  pattern object is created by the call that uses it, and \<^verbatim>\<open>replace\<close> sets its
  \<^verbatim>\<open>lastIndex\<close> to \<open>0\<close> before the first \<^verbatim>\<open>exec\<close>.
\<close>

theorem render_deterministic:
  "fst (replaceVariables_run inh template data h1) = fst (replaceVariables_run inh template data h2)
   \<and> fst (replaceVariables_run inh template data
             (snd (replaceVariables_run inh template data h1)))
       = fst (replaceVariables_run inh template data h1)
   \<and> fst (replaceVariables_run inh template data h1) = replaceVariables inh template data"
  by (simp add: replaceVariables_run_pure)

subsection \<open>String conversion of resolved placeholders\<close>

text \<open>
  Claim C10.  A placeholder whose path resolves to a mapping should render as
  \<^verbatim>\<open>[object Object]\<close>.  For a mapping with an own property \<^verbatim>\<open>toString\<close> the conversion
  of the replacement throws instead.
\<close>

theorem own_toString_is_not_object_Object:
  "replaceSimpleVariables inh ''{{x}}'' (Obj [(''x'', Obj [(''toString'', Str ''a'')])])
     = Inl TypeError"
  by (simp add: engine_defs)

end
